theory Spec2Isabelle
  imports Main
begin

section \<open>The page as the navigation script sees it\<close>

text \<open>
  The mobile navigation script works on three elements of the page, found with
  \<^verbatim>\<open>document.querySelector\<close>: the navigation region \<^verbatim>\<open>.nav\<close>, the toggle button
  \<^verbatim>\<open>.nav__toggle\<close> and the menu list \<^verbatim>\<open>.nav__list\<close>. Of an element the script reads
  and writes the class list and the attributes. The toggle button and the menu list are
  two different elements. A query that finds nothing returns \<^verbatim>\<open>null\<close>, here \<open>None\<close>;
  a member access on \<^verbatim>\<open>null\<close> throws a \<^verbatim>\<open>TypeError\<close>.
\<close>

datatype error = TypeError

record element =
  classList :: "string list"
  attributes :: "string \<rightharpoonup> string"
  focusable :: bool \<comment> \<open>the element, as rendered, is one that can take the focus\<close>

datatype node = Body | NavToggle | OtherNode

record document =
  nav :: bool \<comment> \<open>\<^verbatim>\<open>document.querySelector('.nav')\<close> is not null\<close>
  navToggle :: "element option" \<comment> \<open>\<^verbatim>\<open>document.querySelector('.nav__toggle')\<close>\<close>
  navMenu :: "element option" \<comment> \<open>\<^verbatim>\<open>document.querySelector('.nav__list')\<close>\<close>
  navLinks :: nat \<comment> \<open>how many \<^verbatim>\<open>.nav__link\<close> elements the menu holds\<close>
  body_overflow :: string \<comment> \<open>\<^verbatim>\<open>document.body.style.overflow\<close>\<close>
  activeElement :: node \<comment> \<open>the element that has the focus\<close>

text \<open>
  A function of the script that throws leaves the mutations it made before the throw in
  place: the result of a call is either \<open>Inl (e, s)\<close>, the error thrown and the state
  at the throw, or \<open>Inr s\<close>, the state at the normal return.
\<close>

type_synonym 's outcome = "(error \<times> 's) + 's"

definition state_of :: "'s outcome \<Rightarrow> 's" where
  "state_of r = (case r of Inl (e, s) \<Rightarrow> s | Inr s \<Rightarrow> s)"

subsection \<open>The DOM operations the script calls\<close>

definition classList_contains :: "string \<Rightarrow> element \<Rightarrow> bool" where
  "classList_contains tok el = (tok \<in> set (classList el))"

definition classList_add :: "string \<Rightarrow> element \<Rightarrow> element" where
  "classList_add tok el =
     (if tok \<in> set (classList el) then el else el\<lparr>classList := classList el @ [tok]\<rparr>)"

definition classList_remove :: "string \<Rightarrow> element \<Rightarrow> element" where
  "classList_remove tok el = el\<lparr>classList := removeAll tok (classList el)\<rparr>"

text \<open>\<^verbatim>\<open>classList.toggle(tok)\<close> returns whether the token is present afterwards.\<close>

definition classList_toggle :: "string \<Rightarrow> element \<Rightarrow> bool \<times> element" where
  "classList_toggle tok el =
     (if tok \<in> set (classList el) then (False, classList_remove tok el)
      else (True, classList_add tok el))"

definition setAttribute :: "string \<Rightarrow> string \<Rightarrow> element \<Rightarrow> element" where
  "setAttribute name v el = el\<lparr>attributes := (attributes el)(name \<mapsto> v)\<rparr>"

definition getAttribute :: "string \<Rightarrow> element \<Rightarrow> string option" where
  "getAttribute name el = attributes el name"

text \<open>
  \<^verbatim>\<open>el.focus()\<close> moves the focus to the element when it can take it, and does nothing
  when it cannot: an element that is not focusable as rendered, or that carries the
  \<^verbatim>\<open>disabled\<close> or the \<^verbatim>\<open>hidden\<close> attribute.
\<close>

definition can_focus :: "element \<Rightarrow> bool" where
  "can_focus el =
     (focusable el \<and> getAttribute ''disabled'' el = None \<and> getAttribute ''hidden'' el = None)"

text \<open>\<^verbatim>\<open>setAttribute\<close> turns a boolean argument into its string.\<close>

definition string_of_boolean :: "bool \<Rightarrow> string" where
  "string_of_boolean b = (if b then ''true'' else ''false'')"

subsection \<open>toggleMenu and closeMenu\<close>

definition toggleMenu :: "document \<Rightarrow> document outcome" where
  "toggleMenu d =
     (case navMenu d of
        None \<Rightarrow> Inl (TypeError, d)
      | Some m \<Rightarrow>
          (let (isOpen, m') = classList_toggle ''nav__list--open'' m;
               d1 = d\<lparr>navMenu := Some m'\<rparr>
           in case navToggle d1 of
                None \<Rightarrow> Inl (TypeError, d1)
              | Some t \<Rightarrow>
                  (let t1 = snd (classList_toggle ''nav__toggle--open'' t);
                       t2 = setAttribute ''aria-expanded'' (string_of_boolean isOpen) t1
                   in Inr (d1\<lparr>navToggle := Some t2,
                              body_overflow := (if isOpen then ''hidden'' else '''')\<rparr>))))"

definition closeMenu :: "document \<Rightarrow> document outcome" where
  "closeMenu d =
     (case navMenu d of
        None \<Rightarrow> Inl (TypeError, d)
      | Some m \<Rightarrow>
          (let d1 = d\<lparr>navMenu := Some (classList_remove ''nav__list--open'' m)\<rparr>
           in case navToggle d1 of
                None \<Rightarrow> Inl (TypeError, d1)
              | Some t \<Rightarrow>
                  (let t1 = classList_remove ''nav__toggle--open'' t;
                       t2 = setAttribute ''aria-expanded'' ''false'' t1
                   in Inr (d1\<lparr>navToggle := Some t2, body_overflow := ''''\<rparr>))))"

subsection \<open>The four reflections of the menu state\<close>

definition menu_open :: "document \<Rightarrow> bool" where
  "menu_open d =
     (case navMenu d of None \<Rightarrow> False | Some m \<Rightarrow> classList_contains ''nav__list--open'' m)"

definition toggle_open :: "document \<Rightarrow> bool" where
  "toggle_open d =
     (case navToggle d of None \<Rightarrow> False | Some t \<Rightarrow> classList_contains ''nav__toggle--open'' t)"

definition aria_expanded :: "document \<Rightarrow> string option" where
  "aria_expanded d =
     (case navToggle d of None \<Rightarrow> None | Some t \<Rightarrow> getAttribute ''aria-expanded'' t)"

definition scroll_locked :: "document \<Rightarrow> bool" where
  "scroll_locked d = (body_overflow d = ''hidden'')"

definition reflections_agree :: "document \<Rightarrow> bool" where
  "reflections_agree d =
     (toggle_open d = menu_open d \<and>
      (aria_expanded d = Some ''true'') = menu_open d \<and>
      scroll_locked d = menu_open d)"

definition canonical_closed :: "document \<Rightarrow> bool" where
  "canonical_closed d =
     (\<not> menu_open d \<and> \<not> toggle_open d \<and> aria_expanded d = Some ''false'' \<and>
      body_overflow d = '''')"

section \<open>Timers\<close>

text \<open>
  \<^verbatim>\<open>setTimeout\<close> and \<^verbatim>\<open>clearTimeout\<close> over a clock in milliseconds: a pending timer is
  its handle, the time it is due at and the callback it runs. \<^verbatim>\<open>clearTimeout\<close> of
  \<^verbatim>\<open>undefined\<close> (here \<open>None\<close>) or of a handle that is not pending does nothing.
\<close>

type_synonym 'c timer = "nat \<times> nat \<times> 'c"

record 'c timers =
  now :: nat
  next_id :: nat
  pending :: "'c timer list"

definition setTimeout :: "'c \<Rightarrow> nat \<Rightarrow> 'c timers \<Rightarrow> nat \<times> 'c timers" where
  "setTimeout cb delay q =
     (next_id q,
      q\<lparr>next_id := Suc (next_id q),
        pending := pending q @ [(next_id q, now q + delay, cb)]\<rparr>)"

definition clearTimeout :: "nat option \<Rightarrow> 'c timers \<Rightarrow> 'c timers" where
  "clearTimeout h q =
     (case h of
        None \<Rightarrow> q
      | Some i \<Rightarrow> q\<lparr>pending := filter (\<lambda>tm. fst tm \<noteq> i) (pending q)\<rparr>)"

text \<open>The pending timer that is due first; of two due together, the one set first.\<close>

fun earliest :: "'c timer list \<Rightarrow> 'c timer option" where
  "earliest [] = None"
| "earliest (x # xs) =
     (case earliest xs of
        None \<Rightarrow> Some x
      | Some y \<Rightarrow> if fst (snd x) \<le> fst (snd y) then Some x else Some y)"

definition next_due :: "nat \<Rightarrow> 'c timers \<Rightarrow> 'c timer option" where
  "next_due t q =
     (case earliest (pending q) of
        None \<Rightarrow> None
      | Some tm \<Rightarrow> if fst (snd tm) \<le> t then Some tm else None)"

text \<open>Taking a due timer off the queue, the clock standing at its due time.\<close>

definition take_timer :: "'c timer \<Rightarrow> 'c timers \<Rightarrow> 'c timers" where
  "take_timer tm q = q\<lparr>now := max (now q) (fst (snd tm)), pending := remove1 tm (pending q)\<rparr>"

definition set_clock :: "nat \<Rightarrow> 'c timers \<Rightarrow> 'c timers" where
  "set_clock t q = q\<lparr>now := max (now q) t\<rparr>"

section \<open>The navigation script: listeners, events and the event loop\<close>

datatype handler = H_toggleMenu | H_closeMenu | H_outsideClick | H_escapeKey | H_resize

datatype evt_target = T_navToggle | T_navLink nat | T_document | T_window

datatype callback = ResizeCheck

record browser =
  doc :: document
  innerWidth :: int
  listeners :: "(evt_target \<times> string \<times> handler) list"
  timers :: "callback timers"
  resizeTimer :: "nat option" \<comment> \<open>\<^verbatim>\<open>let resizeTimer\<close> of \<^verbatim>\<open>init\<close>\<close>
  uncaught :: "error list" \<comment> \<open>errors thrown by listeners and callbacks\<close>

text \<open>
  An event as the listeners see it: its type, the targets on its propagation path (from
  the target up to the document and the window), whether \<^verbatim>\<open>nav.contains(e.target)\<close>
  holds, and \<^verbatim>\<open>e.key\<close>.
\<close>

record dom_event =
  etype :: string
  path :: "evt_target list"
  in_nav :: bool
  key :: string

text \<open>
  \<^verbatim>\<open>init\<close>, which the script runs once, when the document is ready: nothing is bound
  unless both the toggle and the menu are found. The listeners read the toggle and the
  menu that \<^verbatim>\<open>init\<close> found; the model reads them from the document, where they stay.
\<close>

definition nav_listeners :: "nat \<Rightarrow> (evt_target \<times> string \<times> handler) list" where
  "nav_listeners n =
     [(T_navToggle, ''click'', H_toggleMenu)] @
     map (\<lambda>i. (T_navLink i, ''click'', H_closeMenu)) [0..<n] @
     [(T_document, ''click'', H_outsideClick),
      (T_document, ''keydown'', H_escapeKey),
      (T_window, ''resize'', H_resize)]"

definition init :: "browser \<Rightarrow> browser" where
  "init b =
     (if navToggle (doc b) = None \<or> navMenu (doc b) = None then b
      else b\<lparr>listeners := listeners b @ nav_listeners (navLinks (doc b))\<rparr>)"

text \<open>The listener on the document for clicks outside the navigation region.\<close>

definition on_outside_click :: "dom_event \<Rightarrow> document \<Rightarrow> document outcome" where
  "on_outside_click e d =
     (if \<not> nav d then Inl (TypeError, d)
      else if in_nav e then Inr d
      else case navMenu d of
             None \<Rightarrow> Inl (TypeError, d)
           | Some m \<Rightarrow>
               if classList_contains ''nav__list--open'' m then closeMenu d else Inr d)"

text \<open>\<^verbatim>\<open>navToggle.focus()\<close>.\<close>

definition navToggle_focus :: "document \<Rightarrow> document outcome" where
  "navToggle_focus d =
     (case navToggle d of
        None \<Rightarrow> Inl (TypeError, d)
      | Some t \<Rightarrow> Inr (if can_focus t then d\<lparr>activeElement := NavToggle\<rparr> else d))"

text \<open>The listener on the document for the Escape key.\<close>

definition on_keydown :: "dom_event \<Rightarrow> document \<Rightarrow> document outcome" where
  "on_keydown e d =
     (if key e = ''Escape'' then
        (case navMenu d of
           None \<Rightarrow> Inl (TypeError, d)
         | Some m \<Rightarrow>
             if classList_contains ''nav__list--open'' m then
               (case closeMenu d of
                  Inl x \<Rightarrow> Inl x
                | Inr d' \<Rightarrow> navToggle_focus d')
             else Inr d)
      else Inr d)"

text \<open>The timer callback of the resize listener, reading \<^verbatim>\<open>window.innerWidth\<close>.\<close>

definition resize_check :: "int \<Rightarrow> document \<Rightarrow> document outcome" where
  "resize_check w d =
     (if w \<ge> 768 then
        (case navMenu d of
           None \<Rightarrow> Inl (TypeError, d)
         | Some m \<Rightarrow>
             if classList_contains ''nav__list--open'' m then closeMenu d else Inr d)
      else Inr d)"

text \<open>The resize listener: the pending check is cancelled and a new one set, 250 ms on.\<close>

definition on_resize :: "browser \<Rightarrow> browser" where
  "on_resize b =
     (let q1 = clearTimeout (resizeTimer b) (timers b);
          (i, q2) = setTimeout ResizeCheck 250 q1
      in b\<lparr>timers := q2, resizeTimer := Some i\<rparr>)"

text \<open>
  A listener or callback that works on the document: its mutations stay, an error it
  throws is reported and goes no further.
\<close>

definition in_doc :: "(document \<Rightarrow> document outcome) \<Rightarrow> browser \<Rightarrow> browser" where
  "in_doc f b =
     (case f (doc b) of
        Inl (e, d) \<Rightarrow> b\<lparr>doc := d, uncaught := uncaught b @ [e]\<rparr>
      | Inr d \<Rightarrow> b\<lparr>doc := d\<rparr>)"

fun run_handler :: "handler \<Rightarrow> dom_event \<Rightarrow> browser \<Rightarrow> browser" where
  "run_handler H_toggleMenu e b = in_doc toggleMenu b"
| "run_handler H_closeMenu e b = in_doc closeMenu b"
| "run_handler H_outsideClick e b = in_doc (on_outside_click e) b"
| "run_handler H_escapeKey e b = in_doc (on_keydown e) b"
| "run_handler H_resize e b = on_resize b"

fun run_callback :: "callback \<Rightarrow> browser \<Rightarrow> browser" where
  "run_callback ResizeCheck b = in_doc (resize_check (innerWidth b)) b"

text \<open>
  Dispatch: along the propagation path, the listeners bound to each target for the
  event's type run in the order they were bound.
\<close>

definition listeners_for :: "dom_event \<Rightarrow> browser \<Rightarrow> handler list" where
  "listeners_for e b =
     concat (map (\<lambda>tg. map (\<lambda>l. snd (snd l))
                          (filter (\<lambda>l. fst l = tg \<and> fst (snd l) = etype e) (listeners b)))
                 (path e))"

definition dispatch :: "dom_event \<Rightarrow> browser \<Rightarrow> browser" where
  "dispatch e b = fold (\<lambda>h. run_handler h e) (listeners_for e b) b"

text \<open>The event loop running the timers that are due up to time \<open>t\<close>.\<close>

definition fire :: "callback timer \<Rightarrow> browser \<Rightarrow> browser" where
  "fire tm b = run_callback (snd (snd tm)) (b\<lparr>timers := take_timer tm (timers b)\<rparr>)"

lemma earliest_mem: "earliest ts = Some tm \<Longrightarrow> tm \<in> set ts"
  by (induction ts arbitrary: tm) (auto split: option.splits if_splits)

lemma next_due_mem: "next_due t q = Some tm \<Longrightarrow> tm \<in> set (pending q)"
  by (auto simp: next_due_def earliest_mem split: option.splits if_splits)

lemma length_remove1_less: "x \<in> set xs \<Longrightarrow> length (remove1 x xs) < length xs"
  by (induction xs) auto

lemma timers_in_doc [simp]: "timers (in_doc f b) = timers b"
  by (simp add: in_doc_def split: sum.splits prod.splits)

lemma pending_fire: "pending (timers (fire tm b)) = remove1 tm (pending (timers b))"
  by (cases "snd (snd tm)") (simp add: fire_def take_timer_def)

function run_timers :: "nat \<Rightarrow> browser \<Rightarrow> browser" where
  "run_timers t b =
     (case next_due t (timers b) of
        None \<Rightarrow> b\<lparr>timers := set_clock t (timers b)\<rparr>
      | Some tm \<Rightarrow> run_timers t (fire tm b))"
  by pat_completeness auto
termination
  by (relation "measure (\<lambda>(t, b). length (pending (timers b)))")
     (auto simp: pending_fire dest!: next_due_mem intro: length_remove1_less)

declare run_timers.simps [simp del]

text \<open>What happens on the page, from outside.\<close>

datatype click_target = OnToggle | OnLink nat | OnOther

datatype event =
    Click click_target bool \<comment> \<open>where the click lands; whether inside \<^verbatim>\<open>.nav\<close>\<close>
  | Keydown string
  | Resize int \<comment> \<open>the window's new width\<close>
  | Elapse nat \<comment> \<open>milliseconds passing\<close>

fun click_path :: "click_target \<Rightarrow> evt_target list" where
  "click_path OnToggle = [T_navToggle, T_document, T_window]"
| "click_path (OnLink i) = [T_navLink i, T_document, T_window]"
| "click_path OnOther = [T_document, T_window]"

fun step :: "event \<Rightarrow> browser \<Rightarrow> browser" where
  "step (Click tg inside) b =
     dispatch \<lparr>etype = ''click'', path = click_path tg, in_nav = inside, key = ''''\<rparr> b"
| "step (Keydown k) b =
     dispatch \<lparr>etype = ''keydown'', path = [T_document, T_window], in_nav = False, key = k\<rparr> b"
| "step (Resize w) b =
     dispatch \<lparr>etype = ''resize'', path = [T_window], in_nav = False, key = ''''\<rparr>
       (b\<lparr>innerWidth := w\<rparr>)"
| "step (Elapse ms) b = run_timers (now (timers b) + ms) b"

definition run :: "event list \<Rightarrow> browser \<Rightarrow> browser" where
  "run evs b = fold step evs b"

text \<open>A burst of resizes, each followed by the time that passes before the next event.\<close>

definition resize_burst :: "(int \<times> nat) list \<Rightarrow> event list" where
  "resize_burst ws = concat (map (\<lambda>(w, gap). [Resize w, Elapse gap]) ws)"

section \<open>Utils.debounce\<close>

text \<open>
  The closure that \<^verbatim>\<open>debounce(func, wait)\<close> returns owns the variable \<^verbatim>\<open>timeout\<close>. Each
  call of the closure sets a timer whose callback \<^verbatim>\<open>later\<close> has captured the arguments
  of that call, so a pending timer is stored with these arguments. What \<^verbatim>\<open>func\<close> does
  is its caller's business: the model records when it is invoked and with which
  arguments.
\<close>

record 'a debounced =
  timeout :: "nat option"
  clock :: "'a timers"
  invoked :: "(nat \<times> 'a) list"

definition debounce :: "nat \<Rightarrow> 'a debounced" where
  "debounce t0 = \<lparr>timeout = None, clock = \<lparr>now = t0, next_id = 1, pending = []\<rparr>, invoked = []\<rparr>"

definition later :: "'a \<Rightarrow> 'a debounced \<Rightarrow> 'a debounced" where
  "later args s =
     (let q = clearTimeout (timeout s) (clock s)
      in s\<lparr>clock := q, invoked := invoked s @ [(now q, args)]\<rparr>)"

definition executedFunction :: "nat \<Rightarrow> 'a \<Rightarrow> 'a debounced \<Rightarrow> 'a debounced" where
  "executedFunction wait args s =
     (let q1 = clearTimeout (timeout s) (clock s);
          (i, q2) = setTimeout args wait q1
      in s\<lparr>timeout := Some i, clock := q2\<rparr>)"

definition fire_later :: "'a timer \<Rightarrow> 'a debounced \<Rightarrow> 'a debounced" where
  "fire_later tm s = later (snd (snd tm)) (s\<lparr>clock := take_timer tm (clock s)\<rparr>)"

lemma length_filter_remove1_less:
  "x \<in> set xs \<Longrightarrow> length (filter P (remove1 x xs)) < length xs"
  using length_remove1_less [of x xs] length_filter_le [of P "remove1 x xs"] by linarith

lemma pending_fire_later_less:
  "tm \<in> set (pending (clock s)) \<Longrightarrow>
   length (pending (clock (fire_later tm s))) < length (pending (clock s))"
  by (cases "timeout s")
     (simp_all add: fire_later_def later_def clearTimeout_def take_timer_def Let_def
        length_remove1_less length_filter_remove1_less)

function elapse_to :: "nat \<Rightarrow> 'a debounced \<Rightarrow> 'a debounced" where
  "elapse_to t s =
     (case next_due t (clock s) of
        None \<Rightarrow> s\<lparr>clock := set_clock t (clock s)\<rparr>
      | Some tm \<Rightarrow> elapse_to t (fire_later tm s))"
  by pat_completeness auto
termination
  by (relation "measure (\<lambda>(t, s). length (pending (clock s)))")
     (auto dest!: next_due_mem intro: pending_fire_later_less)

declare elapse_to.simps [simp del]

text \<open>A call of the closure at time \<open>t\<close>, after the timers due by then have run.\<close>

definition call_at :: "nat \<Rightarrow> nat \<times> 'a \<Rightarrow> 'a debounced \<Rightarrow> 'a debounced" where
  "call_at wait c s = executedFunction wait (snd c) (elapse_to (fst c) s)"

text \<open>Calls that follow one another in time, each less than \<open>wait\<close> after the one before.\<close>

fun within_quiet :: "nat \<Rightarrow> (nat \<times> 'a) list \<Rightarrow> bool" where
  "within_quiet wait (x # y # zs) =
     (fst x \<le> fst y \<and> fst y < fst x + wait \<and> within_quiet wait (y # zs))"
| "within_quiet wait zs = True"

section \<open>Utils.copyToClipboard\<close>

text \<open>
  What the function meets in the browser: \<^verbatim>\<open>navigator.clipboard\<close>, absent in older
  browsers, whose \<^verbatim>\<open>writeText\<close> returns a promise that is fulfilled when the text was
  written and rejected with an error when it was not; and \<^verbatim>\<open>document.execCommand('copy')\<close>,
  which returns \<^verbatim>\<open>true\<close> when the selection was copied, returns \<^verbatim>\<open>false\<close> when the
  command is unsupported or disabled and nothing was copied, and in some browsers throws.
\<close>

datatype dom_exception = NotAllowedError | SecurityError

datatype exec_result = Returns bool | Throws dom_exception

datatype promise = Resolved | Rejected dom_exception

record style =
  position :: string
  opacity :: string

record textarea =
  tvalue :: string
  tstyle :: style

datatype child = TextArea textarea | PageContent

record clip_page =
  clipboard :: "(string \<Rightarrow> dom_exception option) option"
  execCommand :: "string \<Rightarrow> exec_result"
  body :: "child list"

definition copyToClipboard :: "string \<Rightarrow> clip_page \<Rightarrow> promise \<times> clip_page" where
  "copyToClipboard text p =
     (case clipboard p of
        Some writeText \<Rightarrow>
          ((case writeText text of None \<Rightarrow> Resolved | Some err \<Rightarrow> Rejected err), p)
      | None \<Rightarrow>
          (let textArea = \<lparr>tvalue = text, tstyle = \<lparr>position = ''fixed'', opacity = ''0''\<rparr>\<rparr>;
               p1 = p\<lparr>body := body p @ [TextArea textArea]\<rparr>
           in case execCommand p1 ''copy'' of
                Returns r \<Rightarrow> (Resolved, p1\<lparr>body := butlast (body p1)\<rparr>)
              | Throws err \<Rightarrow> (Rejected err, p1\<lparr>body := butlast (body p1)\<rparr>)))"

text \<open>Whether the copy the call asks for is made.\<close>

definition copy_succeeds :: "string \<Rightarrow> clip_page \<Rightarrow> bool" where
  "copy_succeeds text p =
     (case clipboard p of
        Some writeText \<Rightarrow> writeText text = None
      | None \<Rightarrow> execCommand p ''copy'' = Returns True)"

section \<open>Utils.getBreakpoint\<close>

definition getBreakpoint :: "int \<Rightarrow> string" where
  "getBreakpoint width =
     (if width < 768 then ''mobile''
      else if width < 1024 then ''tablet''
      else ''desktop'')"

section \<open>Example pages\<close>

definition closed_page :: document where
  "closed_page =
     \<lparr>nav = True,
      navToggle = Some \<lparr>classList = [''nav__toggle''],
                        attributes = [''aria-expanded'' \<mapsto> ''false''], focusable = True\<rparr>,
      navMenu = Some \<lparr>classList = [''nav__list''], attributes = Map.empty, focusable = True\<rparr>,
      navLinks = 3, body_overflow = '''', activeElement = Body\<rparr>"

definition open_page :: document where
  "open_page =
     \<lparr>nav = True,
      navToggle = Some \<lparr>classList = [''nav__toggle'', ''nav__toggle--open''],
                        attributes = [''aria-expanded'' \<mapsto> ''true''], focusable = True\<rparr>,
      navMenu = Some \<lparr>classList = [''nav__list'', ''nav__list--open''],
                      attributes = Map.empty, focusable = True\<rparr>,
      navLinks = 3, body_overflow = ''hidden'', activeElement = OtherNode\<rparr>"

text \<open>A page whose toggle button carries its open class while the menu is closed.\<close>

definition stale_toggle_page :: document where
  "stale_toggle_page =
     \<lparr>nav = True,
      navToggle = Some \<lparr>classList = [''nav__toggle'', ''nav__toggle--open''],
                        attributes = [''aria-expanded'' \<mapsto> ''false''], focusable = True\<rparr>,
      navMenu = Some \<lparr>classList = [''nav__list''], attributes = Map.empty, focusable = True\<rparr>,
      navLinks = 3, body_overflow = '''', activeElement = Body\<rparr>"

text \<open>An open page whose toggle button is disabled.\<close>

definition disabled_toggle_page :: document where
  "disabled_toggle_page =
     \<lparr>nav = True,
      navToggle = Some \<lparr>classList = [''nav__toggle'', ''nav__toggle--open''],
                        attributes = [''aria-expanded'' \<mapsto> ''true'', ''disabled'' \<mapsto> ''''],
                        focusable = True\<rparr>,
      navMenu = Some \<lparr>classList = [''nav__list'', ''nav__list--open''],
                      attributes = Map.empty, focusable = True\<rparr>,
      navLinks = 3, body_overflow = ''hidden'', activeElement = OtherNode\<rparr>"

text \<open>A closed page whose body has the inline style \<^verbatim>\<open>overflow: auto\<close>.\<close>

definition auto_overflow_page :: document where
  "auto_overflow_page = closed_page\<lparr>body_overflow := ''auto''\<rparr>"

text \<open>A page with no navigation at all.\<close>

definition bare_page :: document where
  "bare_page =
     \<lparr>nav = False, navToggle = None, navMenu = None, navLinks = 0,
      body_overflow = '''', activeElement = Body\<rparr>"

text \<open>The browser when the script is loaded: nothing bound, no timer set.\<close>

definition fresh_browser :: "document \<Rightarrow> int \<Rightarrow> browser" where
  "fresh_browser d w =
     \<lparr>doc = d, innerWidth = w, listeners = [],
      timers = \<lparr>now = 0, next_id = 1, pending = []\<rparr>, resizeTimer = None, uncaught = []\<rparr>"

text \<open>
  An older browser, without \<^verbatim>\<open>navigator.clipboard\<close>, in which the copy command is disabled:
  \<^verbatim>\<open>document.execCommand('copy')\<close> returns \<^verbatim>\<open>false\<close> and copies nothing.
\<close>

definition copy_disabled_page :: clip_page where
  "copy_disabled_page =
     \<lparr>clipboard = None, execCommand = (\<lambda>cmd. Returns False), body = [PageContent]\<rparr>"

section \<open>Invariants of the event loop\<close>

text \<open>The page has its toggle and its menu, and the four reflections agree.\<close>

definition agreeing :: "document \<Rightarrow> bool" where
  "agreeing d = (navToggle d \<noteq> None \<and> navMenu d \<noteq> None \<and> reflections_agree d)"

text \<open>No listener is bound and no timer is pending.\<close>

definition idle :: "browser \<Rightarrow> bool" where
  "idle b = (listeners b = [] \<and> pending (timers b) = [])"

text \<open>
  At most one timer is pending, and it is the one \<^verbatim>\<open>resizeTimer\<close> names.
\<close>

definition debouncing :: "browser \<Rightarrow> bool" where
  "debouncing b =
     (case pending (timers b) of
        [] \<Rightarrow> True
      | [tm] \<Rightarrow> resizeTimer b = Some (fst tm)
      | _ \<Rightarrow> False)"

text \<open>The listeners of \<^verbatim>\<open>init\<close> are bound, for a menu of \<open>n\<close> links.\<close>

definition ready :: "nat \<Rightarrow> browser \<Rightarrow> bool" where
  "ready n b = (listeners b = nav_listeners n \<and> debouncing b)"

text \<open>
  The closure has exactly one timer pending, the one \<^verbatim>\<open>timeout\<close> names, due \<open>wait\<close> after
  time \<open>t\<close> and holding the arguments \<open>a\<close>.
\<close>

definition waiting :: "nat \<Rightarrow> nat \<Rightarrow> 'a \<Rightarrow> 'a debounced \<Rightarrow> bool" where
  "waiting wait t a s =
     (case pending (clock s) of
        [tm] \<Rightarrow> timeout s = Some (fst tm) \<and> snd tm = (t + wait, a)
      | _ \<Rightarrow> False)"

section \<open>toggleMenu and closeMenu on a page that has the toggle and the menu\<close>

lemmas dom_defs = classList_contains_def classList_add_def classList_remove_def
  classList_toggle_def setAttribute_def getAttribute_def string_of_boolean_def

lemmas view_defs = menu_open_def toggle_open_def aria_expanded_def scroll_locked_def

lemmas page_defs = closed_page_def open_page_def stale_toggle_page_def auto_overflow_page_def
  bare_page_def disabled_toggle_page_def

lemma toggleMenu_result:
  assumes "navToggle d = Some t" and "navMenu d = Some m"
  shows "\<exists>d'. toggleMenu d = Inr d' \<and> navToggle d' \<noteq> None \<and> navMenu d' \<noteq> None \<and>
           menu_open d' = (\<not> menu_open d) \<and>
           toggle_open d' = (\<not> toggle_open d) \<and>
           aria_expanded d' = Some (string_of_boolean (\<not> menu_open d)) \<and>
           body_overflow d' = (if menu_open d then '''' else ''hidden'') \<and>
           activeElement d' = activeElement d"
  using assms by (simp add: toggleMenu_def dom_defs view_defs)

lemma closeMenu_result:
  assumes "navToggle d = Some t" and "navMenu d = Some m"
  shows "\<exists>d'. closeMenu d = Inr d' \<and> navToggle d' \<noteq> None \<and> navMenu d' \<noteq> None \<and>
           canonical_closed d' \<and> closeMenu d' = Inr d' \<and>
           activeElement d' = activeElement d"
  using assms by (simp add: closeMenu_def dom_defs view_defs canonical_closed_def)

lemma canonical_closed_agree: "canonical_closed d \<Longrightarrow> reflections_agree d"
  by (auto simp: canonical_closed_def reflections_agree_def scroll_locked_def)

text \<open>
  Claim C2. In the Closed state, where the menu lacks \<^verbatim>\<open>nav__list--open\<close> and the toggle's
  class agrees with the menu's (as it does in every state the script reaches from a page
  whose reflections agree, see \<open>reached_classes_agree\<close> below), \<^verbatim>\<open>toggleMenu\<close> adds
  \<^verbatim>\<open>nav__list--open\<close> to the menu and \<^verbatim>\<open>nav__toggle--open\<close> to the toggle, sets
  \<^verbatim>\<open>aria-expanded\<close> to \<^verbatim>\<open>"true"\<close> and the body overflow to \<^verbatim>\<open>"hidden"\<close>. \<^verbatim>\<open>closeMenu\<close>,
  from every state, removes both classes, sets \<^verbatim>\<open>aria-expanded\<close> to \<^verbatim>\<open>"false"\<close> and the
  body overflow to the empty string.
\<close>

theorem toggleMenu_opens_closeMenu_closes:
  assumes "navToggle d = Some t" and "navMenu d = Some m"
  shows "(\<not> menu_open d \<and> toggle_open d = menu_open d \<longrightarrow>
            (\<exists>d'. toggleMenu d = Inr d' \<and> menu_open d' \<and> toggle_open d' \<and>
                  aria_expanded d' = Some ''true'' \<and> body_overflow d' = ''hidden'')) \<and>
         (\<exists>d'. closeMenu d = Inr d' \<and> \<not> menu_open d' \<and> \<not> toggle_open d' \<and>
               aria_expanded d' = Some ''false'' \<and> body_overflow d' = '''')"
  using toggleMenu_result [OF assms] closeMenu_result [OF assms]
  by (auto simp: canonical_closed_def string_of_boolean_def)

theorem toggleMenu_opens_closeMenu_closes_witness:
  "\<not> menu_open closed_page \<and> toggle_open closed_page = menu_open closed_page \<and>
   (\<exists>d'. toggleMenu closed_page = Inr d' \<and> menu_open d' \<and> toggle_open d' \<and>
         aria_expanded d' = Some ''true'' \<and> body_overflow d' = ''hidden'') \<and>
   menu_open open_page \<and>
   (\<exists>d'. closeMenu open_page = Inr d' \<and> \<not> menu_open d' \<and> \<not> toggle_open d' \<and>
         aria_expanded d' = Some ''false'' \<and> body_overflow d' = '''')"
proof -
  have c: "\<not> menu_open closed_page" "toggle_open closed_page = menu_open closed_page"
      "menu_open open_page"
    by (simp_all add: page_defs dom_defs view_defs)
  have "\<exists>t m. navToggle closed_page = Some t \<and> navMenu closed_page = Some m"
    by (simp add: page_defs)
  then obtain t m where h: "navToggle closed_page = Some t" "navMenu closed_page = Some m"
    by blast
  have "\<exists>t m. navToggle open_page = Some t \<and> navMenu open_page = Some m"
    by (simp add: page_defs)
  then obtain t' m' where h': "navToggle open_page = Some t'" "navMenu open_page = Some m'"
    by blast
  show ?thesis
    using c toggleMenu_opens_closeMenu_closes [OF h] toggleMenu_opens_closeMenu_closes [OF h']
    by auto
qed

text \<open>
  Claim C3, as the code has it. From every state of the page, running \<^verbatim>\<open>toggleMenu\<close>
  twice restores the presence of \<^verbatim>\<open>nav__list--open\<close> on the menu and of
  \<^verbatim>\<open>nav__toggle--open\<close> on the toggle, and leaves \<^verbatim>\<open>aria-expanded\<close> and the body
  overflow at the values that reflect the menu's class: \<^verbatim>\<open>"true"\<close> and \<^verbatim>\<open>"hidden"\<close> if
  the menu had its open class, \<^verbatim>\<open>"false"\<close> and the empty string if not. These two are
  therefore restored exactly when they had these values at the start.
\<close>

theorem toggleMenu_twice:
  assumes "navToggle d = Some t" and "navMenu d = Some m"
  shows "\<exists>d1 d2. toggleMenu d = Inr d1 \<and> toggleMenu d1 = Inr d2 \<and>
           menu_open d2 = menu_open d \<and>
           toggle_open d2 = toggle_open d \<and>
           aria_expanded d2 = Some (string_of_boolean (menu_open d)) \<and>
           body_overflow d2 = (if menu_open d then ''hidden'' else '''')"
proof -
  obtain d1 where d1: "toggleMenu d = Inr d1" "navToggle d1 \<noteq> None" "navMenu d1 \<noteq> None"
      "menu_open d1 = (\<not> menu_open d)" "toggle_open d1 = (\<not> toggle_open d)"
    using toggleMenu_result [OF assms] by blast
  from d1(2,3) obtain t1 m1 where e1: "navToggle d1 = Some t1" "navMenu d1 = Some m1"
    by blast
  obtain d2 where d2: "toggleMenu d1 = Inr d2"
      "menu_open d2 = (\<not> menu_open d1)" "toggle_open d2 = (\<not> toggle_open d1)"
      "aria_expanded d2 = Some (string_of_boolean (\<not> menu_open d1))"
      "body_overflow d2 = (if menu_open d1 then '''' else ''hidden'')"
    using toggleMenu_result [OF e1] by blast
  show ?thesis
    using d1(1,4,5) d2 by auto
qed

theorem toggleMenu_twice_witness:
  "\<exists>d1 d2. toggleMenu open_page = Inr d1 \<and> toggleMenu d1 = Inr d2 \<and>
     menu_open d2 = menu_open open_page \<and> toggle_open d2 = toggle_open open_page \<and>
     aria_expanded d2 = aria_expanded open_page \<and>
     body_overflow d2 = body_overflow open_page"
proof -
  have "\<exists>t m. navToggle open_page = Some t \<and> navMenu open_page = Some m"
    by (simp add: page_defs)
  then obtain t m where h: "navToggle open_page = Some t" "navMenu open_page = Some m"
    by blast
  have v: "menu_open open_page" "aria_expanded open_page = Some ''true''"
      "body_overflow open_page = ''hidden''"
    by (simp_all add: page_defs dom_defs view_defs)
  show ?thesis
    using toggleMenu_twice [OF h] v by (auto simp: string_of_boolean_def)
qed

text \<open>
  Claim C3 as it is written fails on a closed page whose body overflow is \<^verbatim>\<open>auto\<close>:
  two runs of \<^verbatim>\<open>toggleMenu\<close> leave the empty string there.
\<close>

theorem toggleMenu_twice_counterexample:
  "body_overflow auto_overflow_page = ''auto'' \<and>
   body_overflow (state_of (toggleMenu (state_of (toggleMenu auto_overflow_page)))) = ''''"
  by (simp add: page_defs toggleMenu_def state_of_def dom_defs)

text \<open>
  Claim C10. On a page that has the toggle and the menu, \<^verbatim>\<open>closeMenu\<close> returns the
  canonical closed state from every state (also one whose reflections disagree, or one
  that is closed already), and a second run changes nothing.
\<close>

theorem closeMenu_idempotent:
  assumes "navToggle d = Some t" and "navMenu d = Some m"
  shows "\<exists>d'. closeMenu d = Inr d' \<and> closeMenu d' = Inr d' \<and> canonical_closed d'"
  using closeMenu_result [OF assms] by blast

theorem closeMenu_idempotent_witness:
  "\<not> reflections_agree stale_toggle_page \<and>
   (\<exists>d'. closeMenu stale_toggle_page = Inr d' \<and> closeMenu d' = Inr d' \<and>
         canonical_closed d')"
proof -
  have "\<exists>t m. navToggle stale_toggle_page = Some t \<and> navMenu stale_toggle_page = Some m"
    by (simp add: page_defs)
  then obtain t m where
    h: "navToggle stale_toggle_page = Some t" "navMenu stale_toggle_page = Some m"
    by blast
  have "\<not> reflections_agree stale_toggle_page"
    by (simp add: page_defs reflections_agree_def dom_defs view_defs)
  then show ?thesis
    using closeMenu_idempotent [OF h] by simp
qed

section \<open>getBreakpoint\<close>

text \<open>
  Claim C9. \<^verbatim>\<open>getBreakpoint\<close> answers \<^verbatim>\<open>mobile\<close> exactly for widths below 768,
  \<^verbatim>\<open>tablet\<close> exactly for widths from 768 and below 1024, \<^verbatim>\<open>desktop\<close> exactly for
  widths from 1024; so \<^verbatim>\<open>mobile\<close> at 500, \<^verbatim>\<open>tablet\<close> at 800 and \<^verbatim>\<open>desktop\<close> at 1200.
\<close>

theorem getBreakpoint_classes:
  "(getBreakpoint w = ''mobile'') = (w < 768) \<and>
   (getBreakpoint w = ''tablet'') = (768 \<le> w \<and> w < 1024) \<and>
   (getBreakpoint w = ''desktop'') = (1024 \<le> w) \<and>
   getBreakpoint 500 = ''mobile'' \<and> getBreakpoint 800 = ''tablet'' \<and>
   getBreakpoint 1200 = ''desktop''"
  by (simp add: getBreakpoint_def)

section \<open>The navigation script at work\<close>

subsection \<open>Every listener and callback keeps the reflections in agreement\<close>

lemma doc_in_doc [simp]: "doc (in_doc f b) = state_of (f (doc b))"
  by (simp add: in_doc_def state_of_def split: sum.splits prod.splits)

lemma doc_on_resize [simp]: "doc (on_resize b) = doc b"
  by (simp add: on_resize_def Let_def split: prod.splits)

lemma doc_init [simp]: "doc (init b) = doc b"
  by (simp add: init_def)

lemma agreeing_toggleMenu: "agreeing d \<Longrightarrow> agreeing (state_of (toggleMenu d))"
proof -
  assume g: "agreeing d"
  then obtain t m where h: "navToggle d = Some t" "navMenu d = Some m"
    by (auto simp: agreeing_def)
  from toggleMenu_result [OF h] g show ?thesis
    by (auto simp: agreeing_def state_of_def reflections_agree_def scroll_locked_def
        string_of_boolean_def)
qed

lemma agreeing_after_closeMenu:
  "navToggle d \<noteq> None \<Longrightarrow> navMenu d \<noteq> None \<Longrightarrow> agreeing (state_of (closeMenu d))"
proof -
  assume "navToggle d \<noteq> None" "navMenu d \<noteq> None"
  then obtain t m where h: "navToggle d = Some t" "navMenu d = Some m"
    by auto
  from closeMenu_result [OF h] show ?thesis
    by (auto simp: agreeing_def state_of_def canonical_closed_agree)
qed

lemma agreeing_closeMenu: "agreeing d \<Longrightarrow> agreeing (state_of (closeMenu d))"
  by (rule agreeing_after_closeMenu) (simp_all add: agreeing_def)

lemma agreeing_on_outside_click: "agreeing d \<Longrightarrow> agreeing (state_of (on_outside_click e d))"
  using agreeing_after_closeMenu [of d]
  by (auto simp: on_outside_click_def agreeing_def state_of_def split: option.splits)

lemma closeMenu_keeps_focusability:
  assumes "navToggle d = Some t" and "navMenu d = Some m"
  shows "\<exists>d' t'. closeMenu d = Inr d' \<and> navToggle d' = Some t' \<and>
           can_focus t' = can_focus t"
  using assms by (simp add: closeMenu_def can_focus_def dom_defs)

lemma on_keydown_open:
  assumes "navToggle d = Some t" and "navMenu d = Some m" and "menu_open d"
    and "closeMenu d = Inr d'"
  shows "on_keydown \<lparr>etype = ty, path = ps, in_nav = i, key = ''Escape''\<rparr> d
           = Inr (if can_focus t then d'\<lparr>activeElement := NavToggle\<rparr> else d')"
proof -
  from closeMenu_keeps_focusability [OF assms(1,2)] assms(4) obtain t' where
    "navToggle d' = Some t'" "can_focus t' = can_focus t"
    by auto
  then show ?thesis
    using assms(2-4) by (simp add: on_keydown_def navToggle_focus_def menu_open_def)
qed

lemma agreeing_activeElement: "agreeing (d\<lparr>activeElement := x\<rparr>) = agreeing d"
  by (simp add: agreeing_def reflections_agree_def view_defs)

lemma agreeing_navToggle_focus: "agreeing d \<Longrightarrow> agreeing (state_of (navToggle_focus d))"
  by (auto simp: navToggle_focus_def state_of_def agreeing_activeElement split: option.splits)

lemma agreeing_on_keydown: "agreeing d \<Longrightarrow> agreeing (state_of (on_keydown e d))"
proof -
  assume g: "agreeing d"
  then obtain t m where h: "navToggle d = Some t" "navMenu d = Some m"
    by (auto simp: agreeing_def)
  from closeMenu_result [OF h] obtain d' where
    d': "closeMenu d = Inr d'" "navToggle d' \<noteq> None" "navMenu d' \<noteq> None"
      "canonical_closed d'"
    by blast
  have "agreeing d'"
    using d'(2-4) canonical_closed_agree [OF d'(4)] by (simp add: agreeing_def)
  moreover have "state_of (Inr d :: document outcome) = d"
    by (simp add: state_of_def)
  ultimately show ?thesis
    using g h d'(1) agreeing_navToggle_focus [of d'] by (simp add: on_keydown_def)
qed

lemma agreeing_resize_check: "agreeing d \<Longrightarrow> agreeing (state_of (resize_check w d))"
  using agreeing_after_closeMenu [of d]
  by (auto simp: resize_check_def agreeing_def state_of_def split: option.splits)

lemma agreeing_run_handler: "agreeing (doc b) \<Longrightarrow> agreeing (doc (run_handler h e b))"
  by (cases h)
     (simp_all add: agreeing_toggleMenu agreeing_closeMenu agreeing_on_outside_click
        agreeing_on_keydown)

lemma agreeing_fold_handlers:
  "agreeing (doc b) \<Longrightarrow> agreeing (doc (fold (\<lambda>h. run_handler h e) hs b))"
  by (induction hs arbitrary: b) (simp_all add: agreeing_run_handler)

lemma agreeing_dispatch: "agreeing (doc b) \<Longrightarrow> agreeing (doc (dispatch e b))"
  by (simp add: dispatch_def agreeing_fold_handlers)

lemma agreeing_fire: "agreeing (doc b) \<Longrightarrow> agreeing (doc (fire tm b))"
  by (cases "snd (snd tm)") (simp add: fire_def agreeing_resize_check)

lemma agreeing_run_timers: "agreeing (doc b) \<Longrightarrow> agreeing (doc (run_timers t b))"
proof (induction t b rule: run_timers.induct)
  case (1 t b)
  show ?case
  proof (cases "next_due t (timers b)")
    case None
    then show ?thesis
      using "1.prems" by (simp add: run_timers.simps [of t b])
  next
    case (Some tm)
    then show ?thesis
      using "1.IH" [OF Some agreeing_fire [OF "1.prems"]]
      by (simp add: run_timers.simps [of t b])
  qed
qed

lemma agreeing_step: "agreeing (doc b) \<Longrightarrow> agreeing (doc (step ev b))"
  by (cases ev) (simp_all add: agreeing_dispatch agreeing_run_timers)

lemma agreeing_run: "agreeing (doc b) \<Longrightarrow> agreeing (doc (run evs b))"
  unfolding run_def by (induction evs arbitrary: b) (simp_all add: agreeing_step)

lemma reached_classes_agree:
  assumes "agreeing (doc b)"
  shows "toggle_open (doc (run evs (init b))) = menu_open (doc (run evs (init b)))"
proof -
  have "agreeing (doc (init b))"
    using assms by simp
  from agreeing_run [OF this, of evs] show ?thesis
    by (simp add: agreeing_def reflections_agree_def)
qed

text \<open>
  Claim C1. On a page that has the toggle and the menu and whose reflections agree when
  the script is loaded (as they do on the closed page), they agree after every sequence
  of clicks, key presses, resizes and lapses of time, hence after every transition that
  \<^verbatim>\<open>toggleMenu\<close> or \<^verbatim>\<open>closeMenu\<close> makes: the menu has \<^verbatim>\<open>nav__list--open\<close> exactly when
  the toggle has \<^verbatim>\<open>nav__toggle--open\<close>, exactly when \<^verbatim>\<open>aria-expanded\<close> is \<^verbatim>\<open>"true"\<close>,
  exactly when the body overflow is \<^verbatim>\<open>"hidden"\<close>.
\<close>

theorem reflections_agree_invariant:
  assumes "navToggle (doc b) = Some t" and "navMenu (doc b) = Some m"
    and "reflections_agree (doc b)"
  shows "reflections_agree (doc (run evs (init b)))"
proof -
  have "agreeing (doc (init b))"
    using assms by (simp add: agreeing_def)
  from agreeing_run [OF this] show ?thesis
    by (simp add: agreeing_def)
qed

theorem reflections_agree_invariant_witness:
  "\<not> menu_open closed_page \<and> reflections_agree closed_page \<and>
   reflections_agree
     (doc (run [Click OnToggle True, Click (OnLink 1) True, Click OnToggle True,
                Resize 1024, Elapse 300, Click OnToggle True, Keydown ''Escape'',
                Click OnToggle True, Click OnOther False]
             (init (fresh_browser closed_page 500))))"
proof -
  have "\<exists>t m. navToggle (doc (fresh_browser closed_page 500)) = Some t \<and>
      navMenu (doc (fresh_browser closed_page 500)) = Some m"
    by (simp add: page_defs fresh_browser_def)
  then obtain t m where h: "navToggle (doc (fresh_browser closed_page 500)) = Some t"
      "navMenu (doc (fresh_browser closed_page 500)) = Some m"
    by blast
  have a: "\<not> menu_open closed_page" "reflections_agree closed_page"
    by (simp_all add: page_defs reflections_agree_def dom_defs view_defs)
  then have "reflections_agree (doc (fresh_browser closed_page 500))"
    by (simp add: fresh_browser_def)
  from reflections_agree_invariant [OF h this] a show ?thesis
    by simp
qed

subsection \<open>The Escape key\<close>

lemma listeners_for_keydown:
  "listeners b = nav_listeners n \<Longrightarrow>
   listeners_for \<lparr>etype = ''keydown'', path = [T_document, T_window], in_nav = i, key = k\<rparr> b
     = [H_escapeKey]"
  by (simp add: listeners_for_def nav_listeners_def filter_map o_def)

text \<open>
  Claim C4, as the code has it. With the listeners of \<^verbatim>\<open>init\<close> bound: when the menu has
  \<^verbatim>\<open>nav__list--open\<close>, a keydown with key \<^verbatim>\<open>Escape\<close> leaves the canonical closed state
  (both open classes gone, \<^verbatim>\<open>aria-expanded\<close> \<^verbatim>\<open>"false"\<close>, body overflow empty) and calls
  \<^verbatim>\<open>focus()\<close> on the toggle: the focus is on the toggle afterwards when the toggle can take
  it, and stays where it was when the toggle cannot. When the menu lacks the class, the
  key press changes nothing at all.
\<close>

theorem escape_key:
  assumes "navToggle (doc b) = Some t" and "navMenu (doc b) = Some m"
    and "listeners b = nav_listeners n"
  shows "if menu_open (doc b)
         then canonical_closed (doc (step (Keydown ''Escape'') b)) \<and>
              activeElement (doc (step (Keydown ''Escape'') b))
                = (if can_focus t then NavToggle else activeElement (doc b))
         else step (Keydown ''Escape'') b = b"
proof (cases "menu_open (doc b)")
  case True
  from closeMenu_result [OF assms(1,2)] obtain d' where
    d': "closeMenu (doc b) = Inr d'" "canonical_closed d'"
      "activeElement d' = activeElement (doc b)"
    by blast
  have "canonical_closed (d'\<lparr>activeElement := NavToggle\<rparr>)"
    using d'(2) by (simp add: canonical_closed_def view_defs)
  then show ?thesis
    using True d'(2,3) on_keydown_open [OF assms(1,2) True d'(1)]
    by (simp add: dispatch_def listeners_for_keydown [OF assms(3)] state_of_def)
next
  case False
  then show ?thesis
    using assms
    by (simp add: dispatch_def listeners_for_keydown on_keydown_def in_doc_def menu_open_def)
qed

theorem escape_key_witness:
  "menu_open open_page \<and> activeElement open_page = OtherNode \<and>
   canonical_closed (doc (step (Keydown ''Escape'') (init (fresh_browser open_page 500)))) \<and>
   activeElement (doc (step (Keydown ''Escape'') (init (fresh_browser open_page 500))))
     = NavToggle \<and>
   \<not> menu_open closed_page \<and>
   step (Keydown ''Escape'') (init (fresh_browser closed_page 500))
     = init (fresh_browser closed_page 500)"
proof -
  let ?to = "\<lparr>classList = [''nav__toggle'', ''nav__toggle--open''],
             attributes = [''aria-expanded'' \<mapsto> ''true''], focusable = True\<rparr>"
  let ?tc = "\<lparr>classList = [''nav__toggle''],
             attributes = [''aria-expanded'' \<mapsto> ''false''], focusable = True\<rparr>"
  have o: "menu_open open_page" "activeElement open_page = OtherNode"
    and c: "\<not> menu_open closed_page"
    by (simp_all add: page_defs dom_defs view_defs)
  have ho: "navToggle (doc (init (fresh_browser open_page 500))) = Some ?to"
      "navMenu (doc (init (fresh_browser open_page 500)))
        = Some \<lparr>classList = [''nav__list'', ''nav__list--open''],
                attributes = Map.empty, focusable = True\<rparr>"
      "listeners (init (fresh_browser open_page 500)) = nav_listeners 3"
    by (simp_all add: init_def fresh_browser_def page_defs)
  have hc: "navToggle (doc (init (fresh_browser closed_page 500))) = Some ?tc"
      "navMenu (doc (init (fresh_browser closed_page 500)))
        = Some \<lparr>classList = [''nav__list''], attributes = Map.empty, focusable = True\<rparr>"
      "listeners (init (fresh_browser closed_page 500)) = nav_listeners 3"
    by (simp_all add: init_def fresh_browser_def page_defs)
  have d: "doc (init (fresh_browser open_page 500)) = open_page"
      "doc (init (fresh_browser closed_page 500)) = closed_page"
    by (simp_all add: fresh_browser_def)
  have f: "can_focus ?to"
    by (simp add: can_focus_def getAttribute_def)
  show ?thesis
    using escape_key [OF ho] escape_key [OF hc] o c d f by simp
qed

text \<open>
  Claim C4 as it is written fails where the toggle cannot take the focus: on a page whose
  menu is open and whose toggle button is disabled, Escape closes the menu and the focus
  stays where it was.
\<close>

theorem escape_key_disabled_toggle_counterexample:
  "menu_open disabled_toggle_page \<and> activeElement disabled_toggle_page = OtherNode \<and>
   \<not> menu_open
       (doc (step (Keydown ''Escape'') (init (fresh_browser disabled_toggle_page 500)))) \<and>
   activeElement
       (doc (step (Keydown ''Escape'') (init (fresh_browser disabled_toggle_page 500))))
     = OtherNode"
  by (simp add: page_defs fresh_browser_def init_def nav_listeners_def dispatch_def
      listeners_for_def on_keydown_def navToggle_focus_def can_focus_def closeMenu_def
      state_of_def dom_defs view_defs)

subsection \<open>A page without the toggle or without the menu\<close>

lemma listeners_for_none: "listeners b = [] \<Longrightarrow> listeners_for e b = []"
  by (simp add: listeners_for_def)

lemma next_due_none: "pending q = [] \<Longrightarrow> next_due t q = None"
  by (simp add: next_due_def)

lemma idle_step:
  assumes "idle b"
  shows "idle (step ev b) \<and> doc (step ev b) = doc b \<and> uncaught (step ev b) = uncaught b"
  using assms
  by (cases ev)
     (simp_all add: idle_def dispatch_def listeners_for_none next_due_none
        run_timers.simps [of _ b] set_clock_def)

lemma idle_run:
  "idle b \<Longrightarrow> idle (run evs b) \<and> doc (run evs b) = doc b \<and> uncaught (run evs b) = uncaught b"
  unfolding run_def
proof (induction evs arbitrary: b)
  case Nil
  then show ?case by simp
next
  case (Cons ev evs)
  from idle_step [OF Cons.prems] Cons.IH [of "step ev b"] show ?case
    by simp
qed

text \<open>
  Claim C6. When the page lacks the toggle or the menu as the script is loaded, \<^verbatim>\<open>init\<close>
  returns with nothing bound; whatever events follow, no listener is ever bound, the
  document stays as it was and no error is thrown.
\<close>

theorem init_without_elements:
  assumes "navToggle (doc b) = None \<or> navMenu (doc b) = None"
    and "listeners b = []" and "pending (timers b) = []"
  shows "init b = b \<and> listeners (run evs (init b)) = [] \<and>
         doc (run evs (init b)) = doc b \<and> uncaught (run evs (init b)) = uncaught b"
proof -
  have i: "init b = b"
    using assms(1) by (auto simp: init_def)
  have "idle b"
    using assms(2,3) by (simp add: idle_def)
  from idle_run [OF this, of evs] i show ?thesis
    by (simp add: idle_def)
qed

theorem init_without_elements_witness:
  "navToggle bare_page = None \<and>
   init (fresh_browser bare_page 500) = fresh_browser bare_page 500 \<and>
   listeners (run [Click OnToggle True, Click OnOther False, Keydown ''Escape'',
                   Resize 1024, Elapse 300] (init (fresh_browser bare_page 500))) = [] \<and>
   doc (run [Click OnToggle True, Click OnOther False, Keydown ''Escape'',
             Resize 1024, Elapse 300] (init (fresh_browser bare_page 500))) = bare_page \<and>
   uncaught (run [Click OnToggle True, Click OnOther False, Keydown ''Escape'',
                  Resize 1024, Elapse 300] (init (fresh_browser bare_page 500))) = []"
proof -
  have h: "navToggle (doc (fresh_browser bare_page 500)) = None \<or>
      navMenu (doc (fresh_browser bare_page 500)) = None"
      "listeners (fresh_browser bare_page 500) = []"
      "pending (timers (fresh_browser bare_page 500)) = []"
    by (simp_all add: fresh_browser_def page_defs)
  have v: "navToggle bare_page = None" "doc (fresh_browser bare_page 500) = bare_page"
      "uncaught (fresh_browser bare_page 500) = []"
    by (simp_all add: fresh_browser_def page_defs)
  from init_without_elements [OF h,
      of "[Click OnToggle True, Click OnOther False, Keydown ''Escape'', Resize 1024, Elapse 300]"]
  show ?thesis
    using v by metis
qed

subsection \<open>The debounced resize listener\<close>

lemma in_doc_keeps [simp]:
  "listeners (in_doc f b) = listeners b" "resizeTimer (in_doc f b) = resizeTimer b"
  "innerWidth (in_doc f b) = innerWidth b"
  by (simp_all add: in_doc_def split: sum.splits prod.splits)

lemma debouncing_in_doc [simp]: "debouncing (in_doc f b) = debouncing b"
  by (simp add: debouncing_def split: list.splits)

lemma on_resize_keeps [simp]:
  "listeners (on_resize b) = listeners b" "innerWidth (on_resize b) = innerWidth b"
  "now (timers (on_resize b)) = now (timers b)"
  by (simp_all add: on_resize_def setTimeout_def clearTimeout_def Let_def split: option.splits)

lemma on_resize_arms:
  assumes "debouncing b"
  shows "pending (timers (on_resize b)) = [(next_id (timers b), now (timers b) + 250, ResizeCheck)] \<and>
         resizeTimer (on_resize b) = Some (next_id (timers b))"
  using assms
  by (auto simp: debouncing_def on_resize_def setTimeout_def clearTimeout_def Let_def
      split: list.splits option.splits)

lemma debouncing_on_resize: "debouncing b \<Longrightarrow> debouncing (on_resize b)"
  using on_resize_arms [of b] by (simp add: debouncing_def)

lemma ready_run_handler: "ready n b \<Longrightarrow> ready n (run_handler h e b)"
  by (cases h) (simp_all add: ready_def debouncing_on_resize)

lemma ready_dispatch: "ready n b \<Longrightarrow> ready n (dispatch e b)"
proof -
  have "ready n b \<Longrightarrow> ready n (fold (\<lambda>h. run_handler h e) hs b)" for hs
    by (induction hs arbitrary: b) (simp_all add: ready_run_handler)
  then show "ready n b \<Longrightarrow> ready n (dispatch e b)"
    unfolding dispatch_def by blast
qed

lemma ready_fire:
  assumes "ready n b" and "tm \<in> set (pending (timers b))"
  shows "ready n (fire tm b)"
proof -
  from assms have "pending (timers b) = [tm]"
    by (auto simp: ready_def debouncing_def split: list.splits)
  then have "pending (timers (fire tm b)) = []"
    by (simp add: pending_fire)
  moreover have "listeners (fire tm b) = listeners b"
    by (cases "snd (snd tm)") (simp add: fire_def)
  ultimately show ?thesis
    using assms(1) by (simp add: ready_def debouncing_def)
qed

lemma ready_set_clock: "ready n b \<Longrightarrow> ready n (b\<lparr>timers := set_clock t (timers b)\<rparr>)"
  by (simp add: ready_def debouncing_def set_clock_def split: list.splits)

lemma ready_run_timers: "ready n b \<Longrightarrow> ready n (run_timers t b)"
proof (induction t b rule: run_timers.induct)
  case (1 t b)
  show ?case
  proof (cases "next_due t (timers b)")
    case None
    then show ?thesis
      using ready_set_clock [OF "1.prems"] by (simp add: run_timers.simps [of t b])
  next
    case (Some tm)
    from ready_fire [OF "1.prems" next_due_mem [OF Some]] "1.IH" [OF Some] Some
    show ?thesis
      by (simp add: run_timers.simps [of t b])
  qed
qed

lemma ready_innerWidth: "ready n b \<Longrightarrow> ready n (b\<lparr>innerWidth := w\<rparr>)"
  by (simp add: ready_def debouncing_def split: list.splits)

lemma ready_step: "ready n b \<Longrightarrow> ready n (step ev b)"
  by (cases ev) (simp_all add: ready_dispatch ready_run_timers ready_innerWidth)

lemma ready_run: "ready n b \<Longrightarrow> ready n (run evs b)"
  unfolding run_def by (induction evs arbitrary: b) (simp_all add: ready_step)

lemma ready_init:
  assumes "navToggle (doc b) = Some t" and "navMenu (doc b) = Some m"
    and "listeners b = []" and "pending (timers b) = []"
  shows "ready (navLinks (doc b)) (init b)"
  using assms by (simp add: ready_def init_def debouncing_def)

lemma run_append: "run (evs @ evs') b = run evs' (run evs b)"
  by (simp add: run_def)

lemma listeners_for_resize:
  "listeners b = nav_listeners n \<Longrightarrow>
   listeners_for \<lparr>etype = ''resize'', path = [T_window], in_nav = i, key = k\<rparr> b
     = [H_resize]"
  by (simp add: listeners_for_def nav_listeners_def filter_map o_def)

lemma step_Resize:
  "listeners b = nav_listeners n \<Longrightarrow> step (Resize w) b = on_resize (b\<lparr>innerWidth := w\<rparr>)"
  by (simp add: dispatch_def listeners_for_resize)

lemma run_timers_early:
  "pending (timers b) = [(i, d, cb)] \<Longrightarrow> t < d \<Longrightarrow>
   run_timers t b = b\<lparr>timers := set_clock t (timers b)\<rparr>"
  by (simp add: run_timers.simps [of t b] next_due_def)

lemma run_timers_idle:
  "pending (timers b) = [] \<Longrightarrow> run_timers t b = b\<lparr>timers := set_clock t (timers b)\<rparr>"
  by (simp add: run_timers.simps [of t b] next_due_def)

lemma run_timers_due:
  assumes "pending (timers b) = [(i, d, ResizeCheck)]" and "d \<le> t"
  shows "doc (run_timers t b) = state_of (resize_check (innerWidth b) (doc b))"
proof -
  let ?b' = "fire (i, d, ResizeCheck) b"
  have p: "pending (timers ?b') = []"
    using assms(1) by (simp add: pending_fire)
  have d: "doc ?b' = state_of (resize_check (innerWidth b) (doc b))"
    by (simp add: fire_def)
  have "run_timers t b = run_timers t ?b'"
    using assms by (simp add: run_timers.simps [of t b] next_due_def)
  then show ?thesis
    using d by (simp add: run_timers_idle [OF p])
qed

lemma resize_then_elapse:
  assumes "ready n b"
  shows "doc (run [Resize w, Elapse ms] b)
           = (if 250 \<le> ms then state_of (resize_check w (doc b)) else doc b) \<and>
         (ms < 250 \<longrightarrow> ready n (run [Resize w, Elapse ms] b))"
proof -
  let ?b0 = "b\<lparr>innerWidth := w\<rparr>"
  let ?b1 = "on_resize ?b0"
  from assms have l: "listeners b = nav_listeners n"
    by (simp add: ready_def)
  from assms have r0: "ready n ?b0"
    by (rule ready_innerWidth)
  then have db: "debouncing ?b0" by (simp add: ready_def)
  from on_resize_arms [OF db]
  have p: "pending (timers ?b1) = [(next_id (timers b), now (timers b) + 250, ResizeCheck)]"
    by simp
  have n: "now (timers ?b1) = now (timers b)" by simp
  have s: "run [Resize w, Elapse ms] b = run_timers (now (timers b) + ms) ?b1"
    using step_Resize [OF l, of w] n by (simp add: run_def)
  have r1: "ready n ?b1"
    using r0 by (simp add: ready_def debouncing_on_resize)
  show ?thesis
  proof (cases "250 \<le> ms")
    case True
    then show ?thesis
      using run_timers_due [OF p, of "now (timers b) + ms"] s by simp
  next
    case False
    then have "now (timers b) + ms < now (timers b) + 250" by simp
    from run_timers_early [OF p this] s False ready_set_clock [OF r1] show ?thesis
      by simp
  qed
qed

lemma resize_burst_keeps:
  assumes "ready n b" and "\<forall>(w, gap) \<in> set ws. gap < 250"
  shows "ready n (run (resize_burst ws) b) \<and> doc (run (resize_burst ws) b) = doc b"
  using assms
proof (induction ws arbitrary: b)
  case Nil
  then show ?case by (simp add: resize_burst_def run_def)
next
  case (Cons x ws)
  obtain w gap where x: "x = (w, gap)" by (cases x)
  with Cons.prems(2) have g: "gap < 250" and rest: "\<forall>(w, gap) \<in> set ws. gap < 250"
    by simp_all
  have sp: "resize_burst (x # ws) = [Resize w, Elapse gap] @ resize_burst ws"
    by (simp add: resize_burst_def x)
  from resize_then_elapse [OF Cons.prems(1), of w gap] g
  have 1: "ready n (run [Resize w, Elapse gap] b)" "doc (run [Resize w, Elapse gap] b) = doc b"
    by simp_all
  from Cons.IH [OF 1(1) rest] 1(2) show ?case
    unfolding sp run_append by simp
qed

lemma state_of_resize_check:
  "state_of (resize_check w d) = (if 768 \<le> w \<and> menu_open d then state_of (closeMenu d) else d)"
  by (simp add: resize_check_def menu_open_def state_of_def split: option.splits)

text \<open>
  Claim C5. After \<^verbatim>\<open>init\<close> on a page with the toggle and the menu, and after any events:
  let resizes follow one another less than 250 ms apart, the last of them to width \<open>w\<close>,
  and let \<open>quiet\<close> ms pass after the last. Until 250 ms have passed the document is as
  it was before the resizes, whatever the widths in between. Once 250 ms have passed, the
  menu has been closed (by \<^verbatim>\<open>closeMenu\<close>) exactly when \<open>w\<close> is at least 768 and the menu
  had \<^verbatim>\<open>nav__list--open\<close>; otherwise the document is unchanged.
\<close>

theorem resize_debounced:
  assumes "navToggle (doc b0) = Some t" and "navMenu (doc b0) = Some m"
    and "listeners b0 = []" and "pending (timers b0) = []"
    and "\<forall>(w', gap) \<in> set ws. gap < 250"
    and "b = run evs (init b0)"
  shows "doc (run (resize_burst ws @ [Resize w, Elapse quiet]) b)
           = (if 250 \<le> quiet \<and> 768 \<le> w \<and> menu_open (doc b)
              then state_of (closeMenu (doc b)) else doc b)"
proof -
  have "ready (navLinks (doc b0)) b"
    unfolding assms(6) by (rule ready_run) (rule ready_init [OF assms(1-4)])
  from resize_burst_keeps [OF this assms(5)]
  have k: "ready (navLinks (doc b0)) (run (resize_burst ws) b)"
      "doc (run (resize_burst ws) b) = doc b"
    by simp_all
  from resize_then_elapse [OF k(1), of w quiet] k(2) show ?thesis
    unfolding run_append by (simp add: state_of_resize_check)
qed

theorem resize_debounced_witness:
  "menu_open (doc (run [Click OnToggle True] (init (fresh_browser closed_page 500)))) \<and>
   canonical_closed
     (doc (run (resize_burst [(1024, 100), (600, 249)] @ [Resize 800, Elapse 250])
            (run [Click OnToggle True] (init (fresh_browser closed_page 500))))) \<and>
   doc (run (resize_burst [(1024, 100), (600, 249)] @ [Resize 800, Elapse 249])
            (run [Click OnToggle True] (init (fresh_browser closed_page 500))))
     = doc (run [Click OnToggle True] (init (fresh_browser closed_page 500))) \<and>
   doc (run (resize_burst [(1024, 100), (800, 249)] @ [Resize 600, Elapse 250])
            (run [Click OnToggle True] (init (fresh_browser closed_page 500))))
     = doc (run [Click OnToggle True] (init (fresh_browser closed_page 500)))"
proof -
  let ?fresh = "fresh_browser closed_page 500"
  let ?b = "run [Click OnToggle True] (init ?fresh)"
  have h: "navToggle (doc ?fresh) = Some \<lparr>classList = [''nav__toggle''],
              attributes = [''aria-expanded'' \<mapsto> ''false''], focusable = True\<rparr>"
      "navMenu (doc ?fresh) = Some \<lparr>classList = [''nav__list''], attributes = Map.empty, focusable = True\<rparr>"
      "listeners ?fresh = []" "pending (timers ?fresh) = []"
    by (simp_all add: fresh_browser_def page_defs)
  have g1: "\<forall>(w', gap) \<in> set [(1024::int, 100::nat), (600, 249)]. gap < 250"
    and g2: "\<forall>(w', gap) \<in> set [(1024::int, 100::nat), (800, 249)]. gap < 250"
    by simp_all
  have o: "menu_open (doc ?b)"
    by (simp add: run_def dispatch_def listeners_for_def init_def nav_listeners_def
        fresh_browser_def page_defs toggleMenu_def dom_defs on_outside_click_def state_of_def
        menu_open_def)
  have c: "canonical_closed (state_of (closeMenu (doc ?b)))"
    by (simp add: run_def dispatch_def listeners_for_def init_def nav_listeners_def
        fresh_browser_def page_defs toggleMenu_def dom_defs on_outside_click_def state_of_def
        closeMenu_def canonical_closed_def view_defs)
  from resize_debounced [where evs = "[Click OnToggle True]" and w = 800 and quiet = 250,
      OF h g1 refl]
    resize_debounced [where evs = "[Click OnToggle True]" and w = 800 and quiet = 249,
      OF h g1 refl]
    resize_debounced [where evs = "[Click OnToggle True]" and w = 600 and quiet = 250,
      OF h g2 refl]
  show ?thesis
    using o c by simp
qed

section \<open>The debounced closure\<close>

lemma waitingD:
  "waiting wait t a s \<Longrightarrow> \<exists>i. pending (clock s) = [(i, t + wait, a)] \<and> timeout s = Some i"
  by (auto simp: waiting_def split: list.splits)

lemma waitingI:
  "pending (clock s) = [(i, t + wait, a)] \<Longrightarrow> timeout s = Some i \<Longrightarrow> waiting wait t a s"
  by (simp add: waiting_def)

lemma elapse_to_idle:
  "pending (clock s) = [] \<Longrightarrow> elapse_to t s = s\<lparr>clock := set_clock t (clock s)\<rparr>"
  by (simp add: elapse_to.simps [of t s] next_due_def)

lemma elapse_to_early:
  "pending (clock s) = [(i, d, a)] \<Longrightarrow> t < d \<Longrightarrow>
   elapse_to t s = s\<lparr>clock := set_clock t (clock s)\<rparr>"
  by (simp add: elapse_to.simps [of t s] next_due_def)

lemma elapse_to_due:
  assumes "pending (clock s) = [(i, d, a)]" and "timeout s = Some i" and "d \<le> t"
  shows "invoked (elapse_to t s) = invoked s @ [(max (now (clock s)) d, a)] \<and>
         pending (clock (elapse_to t s)) = []"
proof -
  let ?s' = "fire_later (i, d, a) s"
  have p: "pending (clock ?s') = []"
    and v: "invoked ?s' = invoked s @ [(max (now (clock s)) d, a)]"
    using assms(1,2)
    by (simp_all add: fire_later_def later_def take_timer_def clearTimeout_def Let_def)
  have "elapse_to t s = elapse_to t ?s'"
    using assms(1,3) by (simp add: elapse_to.simps [of t s] next_due_def)
  then show ?thesis
    using p v by (simp add: elapse_to_idle set_clock_def)
qed

lemma executedFunction_idle:
  assumes "pending (clock s) = []"
  shows "waiting wait (now (clock s)) a (executedFunction wait a s) \<and>
         invoked (executedFunction wait a s) = invoked s \<and>
         now (clock (executedFunction wait a s)) = now (clock s)"
  using assms
  by (simp add: executedFunction_def clearTimeout_def setTimeout_def waiting_def Let_def
      split: option.splits)

lemma executedFunction_rearms:
  assumes "pending (clock s) = [(i, d, a')]" and "timeout s = Some i"
  shows "waiting wait (now (clock s)) a (executedFunction wait a s) \<and>
         invoked (executedFunction wait a s) = invoked s \<and>
         now (clock (executedFunction wait a s)) = now (clock s)"
  using assms
  by (simp add: executedFunction_def clearTimeout_def setTimeout_def waiting_def Let_def)

lemma call_at_first:
  assumes "t0 \<le> fst c"
  shows "waiting wait (fst c) (snd c) (call_at wait c (debounce t0)) \<and>
         invoked (call_at wait c (debounce t0)) = [] \<and>
         now (clock (call_at wait c (debounce t0))) = fst c"
proof -
  let ?s = "elapse_to (fst c) (debounce t0)"
  have e: "?s = (debounce t0)\<lparr>clock := set_clock (fst c) (clock (debounce t0))\<rparr>"
    by (rule elapse_to_idle) (simp add: debounce_def)
  have p: "pending (clock ?s) = []" and n: "now (clock ?s) = fst c" and v: "invoked ?s = []"
    using assms unfolding e by (simp_all add: debounce_def set_clock_def)
  from executedFunction_idle [OF p, of wait "snd c"] show ?thesis
    unfolding call_at_def n v .
qed

lemma call_at_next:
  assumes "waiting wait t a s" and "now (clock s) = t" and "t \<le> fst c" and "fst c < t + wait"
  shows "waiting wait (fst c) (snd c) (call_at wait c s) \<and>
         invoked (call_at wait c s) = invoked s \<and>
         now (clock (call_at wait c s)) = fst c"
proof -
  from waitingD [OF assms(1)] obtain i where
    i: "pending (clock s) = [(i, t + wait, a)]" "timeout s = Some i"
    by blast
  let ?s = "elapse_to (fst c) s"
  have e: "?s = s\<lparr>clock := set_clock (fst c) (clock s)\<rparr>"
    using i(1) assms(4) by (rule elapse_to_early)
  have p: "pending (clock ?s) = [(i, t + wait, a)]" and h: "timeout ?s = Some i"
    and n: "now (clock ?s) = fst c" and v: "invoked ?s = invoked s"
    using i assms(2,3) unfolding e by (simp_all add: set_clock_def)
  from executedFunction_rearms [OF p h, of wait "snd c"] show ?thesis
    unfolding call_at_def n v .
qed

lemma burst_waits:
  assumes "within_quiet wait (c # cs)" and "waiting wait (fst c) (snd c) s"
    and "now (clock s) = fst c"
  shows "waiting wait (fst (last (c # cs))) (snd (last (c # cs))) (fold (call_at wait) cs s) \<and>
         invoked (fold (call_at wait) cs s) = invoked s \<and>
         now (clock (fold (call_at wait) cs s)) = fst (last (c # cs))"
  using assms
proof (induction cs arbitrary: c s)
  case Nil
  then show ?case by simp
next
  case (Cons c' cs)
  from Cons.prems(1) have q: "fst c \<le> fst c'" "fst c' < fst c + wait" "within_quiet wait (c' # cs)"
    by simp_all
  from call_at_next [OF Cons.prems(2,3) q(1,2)]
  have n: "waiting wait (fst c') (snd c') (call_at wait c' s)"
      "invoked (call_at wait c' s) = invoked s" "now (clock (call_at wait c' s)) = fst c'"
    by simp_all
  from Cons.IH [OF q(3) n(1,3)] n(2) show ?case by simp
qed

lemma debounce_burst_state:
  assumes "within_quiet wait (c # cs)" and "t0 \<le> fst c"
  shows "waiting wait (fst (last (c # cs))) (snd (last (c # cs)))
           (fold (call_at wait) (c # cs) (debounce t0)) \<and>
         invoked (fold (call_at wait) (c # cs) (debounce t0)) = [] \<and>
         now (clock (fold (call_at wait) (c # cs) (debounce t0))) = fst (last (c # cs))"
proof -
  from call_at_first [OF assms(2), of wait]
  have f: "waiting wait (fst c) (snd c) (call_at wait c (debounce t0))"
      "invoked (call_at wait c (debounce t0)) = []"
      "now (clock (call_at wait c (debounce t0))) = fst c"
    by simp_all
  from burst_waits [OF assms(1) f(1,3)] f(2) show ?thesis by simp
qed

lemma waiting_elapse:
  assumes "waiting wait t a s" and "now (clock s) = t"
  shows "invoked (elapse_to T s) = invoked s @ (if t + wait \<le> T then [(t + wait, a)] else [])"
proof -
  from waitingD [OF assms(1)] obtain i where
    i: "pending (clock s) = [(i, t + wait, a)]" "timeout s = Some i"
    by blast
  show ?thesis
  proof (cases "t + wait \<le> T")
    case True
    from elapse_to_due [OF i True] assms(2) show ?thesis using True by (simp add: max_def)
  next
    case False
    then have "T < t + wait" by simp
    from elapse_to_early [OF i(1) this] False show ?thesis by simp
  qed
qed

lemma debounce_burst:
  assumes "cs \<noteq> []" and "within_quiet wait cs" and "t0 \<le> fst (hd cs)"
  shows "invoked (elapse_to T (fold (call_at wait) cs (debounce t0)))
         = (if fst (last cs) + wait \<le> T then [(fst (last cs) + wait, snd (last cs))] else [])"
proof -
  from assms(1) obtain c cs' where cs: "cs = c # cs'" by (cases cs) auto
  from debounce_burst_state [of wait c cs' t0] assms(2,3) cs
  have st: "waiting wait (fst (last cs)) (snd (last cs)) (fold (call_at wait) cs (debounce t0))"
     "invoked (fold (call_at wait) cs (debounce t0)) = []"
     "now (clock (fold (call_at wait) cs (debounce t0))) = fst (last cs)"
    by simp_all
  from waiting_elapse [OF st(1,3), of T] st(2) show ?thesis by simp
qed

lemma within_quiet_take: "within_quiet wait cs \<Longrightarrow> within_quiet wait (take k cs)"
proof (induction wait cs arbitrary: k rule: within_quiet.induct)
  case (1 wait x y zs)
  show ?case
  proof (cases k)
    case 0
    then show ?thesis by simp
  next
    case (Suc j)
    show ?thesis
    proof (cases j)
      case 0
      then show ?thesis using Suc by simp
    next
      case (Suc i)
      with "1.prems" "1.IH" [of "Suc i"] \<open>k = Suc j\<close> show ?thesis by simp
    qed
  qed
qed (simp_all add: take_Cons')

lemma span_within_quiet:
  assumes "sorted (map fst cs)" and "\<forall>c \<in> set cs. fst c < lo + wait" and "\<forall>c \<in> set cs. lo \<le> fst c"
  shows "within_quiet wait cs"
  using assms
proof (induction wait cs rule: within_quiet.induct)
  case (1 wait x y zs)
  then show ?case by auto
qed simp_all


lemma sorted_le_last: "sorted (map f (y # zs)) \<Longrightarrow> f y \<le> f (last (y # zs))"
  by (induction zs arbitrary: y) auto

lemma sorted_span_within_quiet:
  "sorted (map fst cs) \<Longrightarrow> cs \<noteq> [] \<Longrightarrow> fst (last cs) < fst (hd cs) + wait \<Longrightarrow>
   within_quiet wait cs"
proof (induction wait cs rule: within_quiet.induct)
  case (1 wait x y zs)
  from "1.prems"(1) have s: "fst x \<le> fst y" "sorted (map fst (y # zs))"
    by simp_all
  from sorted_le_last [OF s(2)] have l: "fst y \<le> fst (last (y # zs))" .
  have "within_quiet wait (y # zs)"
    using "1.IH" [OF s(2)] "1.prems"(3) s(1) by simp
  then show ?case
    using s(1) l "1.prems"(3) by simp
qed simp_all

text \<open>
  Claim C8. For the closure of \<^verbatim>\<open>debounce(fn, 100)\<close>: five calls in time order that lie
  within 50 ms, with no call after them, invoke \<^verbatim>\<open>fn\<close> exactly once, 100 ms after the
  last call and with the arguments of the last call; before that moment, and after any
  number of the five calls, \<^verbatim>\<open>fn\<close> has not been invoked.
\<close>

theorem debounce_five_calls:
  assumes "length cs = 5" and "sorted (map fst cs)" and "t0 \<le> fst (hd cs)"
    and "fst (last cs) \<le> fst (hd cs) + 50"
  shows "invoked (fold (call_at 100) (take k cs) (debounce t0)) = [] \<and>
         invoked (elapse_to T (fold (call_at 100) cs (debounce t0)))
           = (if fst (last cs) + 100 \<le> T then [(fst (last cs) + 100, snd (last cs))] else [])"
proof -
  from assms(1) have ne: "cs \<noteq> []" by auto
  have q: "within_quiet 100 cs"
    using assms(2) ne assms(4) by (intro sorted_span_within_quiet) simp_all
  have "invoked (fold (call_at 100) (take k cs) (debounce t0)) = []"
  proof (cases "take k cs")
    case Nil
    have "invoked (debounce t0 :: 'a debounced) = []" by (simp add: debounce_def)
    then show ?thesis unfolding Nil by simp
  next
    case (Cons c cs')
    then have "hd cs = c" using ne by (cases cs; cases k) simp_all
    with assms(3) have "t0 \<le> fst c" by simp
    moreover have "within_quiet 100 (c # cs')"
      using within_quiet_take [OF q, of k] Cons by simp
    ultimately show ?thesis
      using debounce_burst_state [of 100 c cs' t0] Cons by simp
  qed
  with debounce_burst [OF ne q assms(3), of T] show ?thesis by simp
qed

theorem debounce_five_calls_witness:
  "invoked (elapse_to 149 (fold (call_at 100)
      [(0, ''a''), (10, ''b''), (20, ''c''), (30, ''d''), (50, ''e'')] (debounce 0))) = [] \<and>
   invoked (elapse_to 150 (fold (call_at 100)
      [(0, ''a''), (10, ''b''), (20, ''c''), (30, ''d''), (50, ''e'')] (debounce 0)))
     = [(150, ''e'')]"
proof -
  let ?cs = "[(0::nat, ''a''), (10, ''b''), (20, ''c''), (30, ''d''), (50, ''e'')]"
  have h: "length ?cs = 5" "sorted (map fst ?cs)" "0 \<le> fst (hd ?cs)"
      "fst (last ?cs) \<le> fst (hd ?cs) + 50"
    by simp_all
  from debounce_five_calls [OF h, of 0 149] debounce_five_calls [OF h, of 0 150]
  show ?thesis by simp
qed

section \<open>copyToClipboard\<close>

text \<open>
  What the function does get right: with \<^verbatim>\<open>navigator.clipboard\<close> the promise is that of
  \<^verbatim>\<open>writeText\<close>; in the fallback the promise is rejected when \<^verbatim>\<open>execCommand\<close> throws, and
  the temporary textarea is gone from the body whichever way the call ends.
\<close>

lemma copyToClipboard_clipboard_path:
  "clipboard p = Some writeText \<Longrightarrow>
   copyToClipboard text p =
     ((case writeText text of None \<Rightarrow> Resolved | Some err \<Rightarrow> Rejected err), p)"
  by (simp add: copyToClipboard_def)

lemma copyToClipboard_fallback_path:
  "clipboard p = None \<Longrightarrow>
   body (snd (copyToClipboard text p)) = body p \<and>
   fst (copyToClipboard text p) =
     (case execCommand p ''copy'' of Returns r \<Rightarrow> Resolved | Throws err \<Rightarrow> Rejected err)"
  by (simp add: copyToClipboard_def Let_def split: exec_result.splits)

text \<open>
  Claim C7 does not hold of the fallback: where \<^verbatim>\<open>execCommand('copy')\<close> returns \<^verbatim>\<open>false\<close>,
  so that nothing was copied, the value returned is dropped and the promise is
  fulfilled.
\<close>

theorem copyToClipboard_ignores_false:
  "\<not> copy_succeeds ''hola'' copy_disabled_page \<and>
   copyToClipboard ''hola'' copy_disabled_page = (Resolved, copy_disabled_page)"
  by (simp add: copy_succeeds_def copyToClipboard_def copy_disabled_page_def)

end
